theory Spec2Isabelle
  imports Main
begin

section \<open>Literal trees\<close>

text \<open>
  Modelled from the spec: the classes \<open>Argument\<close> and \<open>Operator\<close> of the literals
  that the visitors of \<^verbatim>\<open>diffpy.srfit.equation.visitors\<close> walk are not in the
  sources; the visitors read the attributes \<open>name\<close>, \<open>value\<close> and \<open>const\<close> of an
  argument and \<open>name\<close>, \<open>symbol\<close>, \<open>nin\<close> and \<open>args\<close> of an operator. Their
  types are those of the spec's data model: an Argument has an optional name, a value
  and a const flag; an Operator has a name, an optional symbol, its declared number
  of inputs and the ordered list of its children.

  The value of an argument is kept abstract (type \<open>'v\<close>); Python's \<open>str\<close> on
  values is a parameter \<open>str\<close> of the Printer functions.
\<close>

datatype 'v argument =
  Argument (arg_name: "string option") (arg_value: 'v) (arg_const: bool)

datatype 'v literal = LArgument "'v argument" | LOperator "'v operator"
and 'v operator =
  Operator (op_name: string) (op_symbol: "string option") (op_nin: int)
    (op_args: "'v literal list")

text \<open>
  The exceptions a traversal can end with: \<open>IndexError\<close> from \<^verbatim>\<open>op.args[i]\<close>, and
  \<open>RecursionError\<close> when the nesting of calls exceeds the interpreter's limit (only the
  traversal of an object graph below, with its explicit depth bound, produces it).
\<close>

datatype error = IndexError | RecursionError

text \<open>
  Python's \<open>str\<close> on an optional string, also used by \<^verbatim>\<open>"%s" % x\<close>:
  a string is itself, \<open>None\<close> is the text \<open>None\<close>.
\<close>

definition str_opt :: "string option \<Rightarrow> string" where
  "str_opt x = (case x of None \<Rightarrow> ''None'' | Some s \<Rightarrow> s)"

section \<open>Printer (printer.py)\<close>

record printer =
  "output" :: string

text \<open>\<^verbatim>\<open>def reset(self): self.output = ""\<close>\<close>

definition Printer_reset :: "printer \<Rightarrow> printer" where
  "Printer_reset p = p\<lparr>output := ''''\<rparr>"

text \<open>
  \<^verbatim>\<open>def __init__(self): self.reset()\<close>. The object has no attribute before
  \<open>reset\<close> runs; the record needs some value there, which \<open>reset\<close> overwrites.
\<close>

definition Printer_init :: printer where
  "Printer_init = Printer_reset \<lparr>output = ''''\<rparr>"

text \<open>
  A visitor method returns either normally, with a Python value (\<open>None\<close> or a string
  for the Printer), or with an exception; in both cases the visitor is left in the
  state reached so far, so every function returns the outcome paired with the visitor.
\<close>

definition Printer_onArgument ::
  "('v \<Rightarrow> string) \<Rightarrow> printer \<Rightarrow> 'v argument \<Rightarrow> (error + string option) \<times> printer" where
  "Printer_onArgument str p arg =
     (let p' = (if arg_name arg = None
                then p\<lparr>output := output p @ str (arg_value arg)\<rparr>
                else p\<lparr>output := output p @ str_opt (arg_name arg)\<rparr>)
      in (Inr (Some (output p')), p'))"

text \<open>
  Modelled from the spec: \<open>Literal.identify\<close> (the spec's \<open>accept\<close>) is not in the
  sources; it calls the visitor's \<open>onArgument\<close> on an Argument and \<open>onOperator\<close> on an
  Operator, passing the node, and returns that call's result unchanged.
  \<open>Printer_identify\<close> is \<open>literal.identify(printer)\<close>.

  \<open>Printer_enumerate\<close> is the loop \<^verbatim>\<open>for idx, literal in enumerate(op.args)\<close> of
  \<open>onOperator\<close>, started at index \<open>idx\<close>. \<open>onOperator\<close> ends its infix branch with a
  bare \<^verbatim>\<open>return\<close>, that is, it returns \<open>None\<close> there.
\<close>

fun Printer_identify ::
    "('v \<Rightarrow> string) \<Rightarrow> 'v literal \<Rightarrow> printer \<Rightarrow> (error + string option) \<times> printer"
and Printer_onOperator ::
    "('v \<Rightarrow> string) \<Rightarrow> printer \<Rightarrow> 'v operator \<Rightarrow> (error + string option) \<times> printer"
and Printer_onInfix ::
    "('v \<Rightarrow> string) \<Rightarrow> printer \<Rightarrow> 'v operator \<Rightarrow> (error + string option) \<times> printer"
and Printer_enumerate ::
    "('v \<Rightarrow> string) \<Rightarrow> printer \<Rightarrow> nat \<Rightarrow> 'v literal list \<Rightarrow> (error + unit) \<times> printer"
where
  "Printer_identify str (LArgument a) p = Printer_onArgument str p a"
| "Printer_identify str (LOperator op) p = Printer_onOperator str p op"
| "Printer_onOperator str p (Operator name symbol nin children) =
     (if Some name \<noteq> symbol \<and> nin = 2 then
        (case Printer_onInfix str p (Operator name symbol nin children) of
           (Inl e, p') \<Rightarrow> (Inl e, p')
         | (Inr _, p') \<Rightarrow> (Inr None, p'))
      else
        (let p1 = p\<lparr>output := output p @ name @ ''(''\<rparr> in
         case Printer_enumerate str p1 0 children of
           (Inl e, p2) \<Rightarrow> (Inl e, p2)
         | (Inr _, p2) \<Rightarrow>
             (let p3 = p2\<lparr>output := output p2 @ '')''\<rparr>
              in (Inr (Some (output p3)), p3))))"
| "Printer_onInfix str p (Operator name symbol nin children) =
     (let p1 = p\<lparr>output := output p @ ''(''\<rparr> in
      case children of
        [] \<Rightarrow> (Inl IndexError, p1)
      | a0 # rest \<Rightarrow>
          (case Printer_identify str a0 p1 of
             (Inl e, p2) \<Rightarrow> (Inl e, p2)
           | (Inr _, p2) \<Rightarrow>
               (let p3 = p2\<lparr>output := output p2 @ '' '' @ str_opt symbol @ '' ''\<rparr> in
                case rest of
                  [] \<Rightarrow> (Inl IndexError, p3)
                | a1 # _ \<Rightarrow>
                    (case Printer_identify str a1 p3 of
                       (Inl e, p4) \<Rightarrow> (Inl e, p4)
                     | (Inr _, p4) \<Rightarrow> (Inr None, p4\<lparr>output := output p4 @ '')''\<rparr>)))))"
| "Printer_enumerate str p idx [] = (Inr (), p)"
| "Printer_enumerate str p idx (literal # rest) =
     (let p1 = (if idx \<noteq> 0 then p\<lparr>output := output p @ '', ''\<rparr> else p) in
      case Printer_identify str literal p1 of
        (Inl e, p2) \<Rightarrow> (Inl e, p2)
      | (Inr _, p2) \<Rightarrow> Printer_enumerate str p2 (idx + 1) rest)"

text \<open>
  Modelled from the spec: the operation \<open>render(root)\<close> of the spec is not a function of
  the sources; it is the use the Printer is made for: construct a Printer, let the
  root identify itself to it, read \<open>output\<close>. An exception of the traversal is the
  outcome of \<open>render\<close>.
\<close>

definition render :: "('v \<Rightarrow> string) \<Rightarrow> 'v literal \<Rightarrow> error + string" where
  "render str root =
     (case Printer_identify str root Printer_init of
        (Inl e, _) \<Rightarrow> Inl e
      | (Inr _, p) \<Rightarrow> Inr (output p))"

text \<open>
  The spec's words for the function-call form: the renderings of the children
  "comma-and-space-joined, in child order".
\<close>

fun comma_join :: "string list \<Rightarrow> string" where
  "comma_join [] = ''''"
| "comma_join [x] = x"
| "comma_join (x # y # zs) = x @ '', '' @ comma_join (y # zs)"

text \<open>
  Modelled from the spec: a tree is well formed when every operator has as many
  children as its declared arity (\<open>len(children) == arity\<close>).
\<close>

fun wellformed :: "'v literal \<Rightarrow> bool"
and wellformed_op :: "'v operator \<Rightarrow> bool" where
  "wellformed (LArgument a) = True"
| "wellformed (LOperator op) = wellformed_op op"
| "wellformed_op (Operator name symbol nin children) =
     (int (length children) = nin \<and> list_all wellformed children)"

section \<open>ArgFinder (argfinder.py)\<close>

text \<open>
  The accumulator \<open>args\<close> is a list of the nodes collected; its elements are of type
  \<open>'a\<close>: the Argument itself in a tree, a reference to it in an object graph.
\<close>

record 'a argfinder =
  args :: "'a list"
  getconsts :: bool

text \<open>\<^verbatim>\<open>def __init__(self, getconsts = True): self.args = []; self.getconsts = getconsts\<close>\<close>

definition ArgFinder_init :: "bool \<Rightarrow> 'a argfinder" where
  "ArgFinder_init g = \<lparr>args = [], getconsts = g\<rparr>"

text \<open>\<^verbatim>\<open>def reset(self): self.args = []\<close>\<close>

definition ArgFinder_reset :: "'a argfinder \<Rightarrow> 'a argfinder" where
  "ArgFinder_reset af = af\<lparr>args := []\<rparr>"

text \<open>
  \<open>onArgument\<close> and \<open>onOperator\<close> return \<open>self.args\<close>; the model returns the
  accumulator's content at the time of the return.
\<close>

definition ArgFinder_onArgument ::
  "'v argument argfinder \<Rightarrow> 'v argument \<Rightarrow> 'v argument list \<times> 'v argument argfinder" where
  "ArgFinder_onArgument af arg =
     (let af' = (if getconsts af \<or> \<not> arg_const arg
                 then af\<lparr>args := args af @ [arg]\<rparr> else af)
      in (args af', af'))"

text \<open>
  \<open>ArgFinder_identify\<close> is \<open>literal.identify(argfinder)\<close> (modelled from the spec, as
  for the Printer); \<open>ArgFinder_for\<close> is the loop \<^verbatim>\<open>for arg in op.args\<close>.
\<close>

fun ArgFinder_identify ::
    "'v literal \<Rightarrow> 'v argument argfinder \<Rightarrow> 'v argument list \<times> 'v argument argfinder"
and ArgFinder_onOperator ::
    "'v argument argfinder \<Rightarrow> 'v operator \<Rightarrow> 'v argument list \<times> 'v argument argfinder"
and ArgFinder_for ::
    "'v argument argfinder \<Rightarrow> 'v literal list \<Rightarrow> 'v argument argfinder"
where
  "ArgFinder_identify (LArgument a) af = ArgFinder_onArgument af a"
| "ArgFinder_identify (LOperator op) af = ArgFinder_onOperator af op"
| "ArgFinder_onOperator af (Operator name symbol nin children) =
     (let af' = ArgFinder_for af children in (args af', af'))"
| "ArgFinder_for af [] = af"
| "ArgFinder_for af (arg # rest) =
     (case ArgFinder_identify arg af of (_, af') \<Rightarrow> ArgFinder_for af' rest)"

text \<open>
  The spec's words for the result of the ArgFinder: the Argument leaves of the tree,
  one entry per occurrence, depth first and left to right over each operator's
  children; an operator contributes nothing itself.
\<close>

fun argument_occurrences :: "'v literal \<Rightarrow> 'v argument list" where
  "argument_occurrences (LArgument a) = [a]"
| "argument_occurrences (LOperator (Operator name symbol nin children)) =
     concat (map argument_occurrences children)"

section \<open>The visitors on an object graph\<close>

text \<open>
  In the program the literals are objects that the visitors receive by reference, and a
  method could assign to their attributes. To state what a traversal does to the nodes,
  the visitors are modelled a second time, on a store of objects: one heap of Argument
  objects and one of Operator objects, an operator's \<open>args\<close> being a list of
  references. Every attribute access of the source is a read of the current store, and
  every function returns the store it leaves behind.

  The graph of a store may have cycles, on which the recursion of the visitors does not
  end by itself; the interpreter ends it with its limit on the depth of calls. The
  traversal takes that limit as \<open>depth\<close>, counted in nested \<open>identify\<close> calls: the
  methods of a visitor receive as \<open>identify\<close> what \<open>literal.identify(self)\<close> does with
  the depth that is left.
\<close>

datatype node = ArgRef nat | OpRef nat

record opobject =
  ob_name :: string
  ob_symbol :: "string option"
  ob_nin :: int
  ob_args :: "node list"

record 'v store =
  arguments :: "nat \<Rightarrow> 'v argument"
  operators :: "nat \<Rightarrow> opobject"

definition Printer_onArgument_st ::
  "('v \<Rightarrow> string) \<Rightarrow> 'v store \<times> printer \<Rightarrow> nat \<Rightarrow>
     (error + string option) \<times> ('v store \<times> printer)" where
  "Printer_onArgument_st str hp a =
     (case hp of (h, p) \<Rightarrow>
        (case Printer_onArgument str p (arguments h a) of (res, p') \<Rightarrow> (res, (h, p'))))"

definition emit :: "string \<Rightarrow> 'v store \<times> printer \<Rightarrow> 'v store \<times> printer" where
  "emit s hp = (case hp of (h, p) \<Rightarrow> (h, p\<lparr>output := output p @ s\<rparr>))"

fun Printer_enumerate_st ::
  "(node \<Rightarrow> 'v store \<times> printer \<Rightarrow> (error + string option) \<times> ('v store \<times> printer)) \<Rightarrow>
     'v store \<times> printer \<Rightarrow> nat \<Rightarrow> node list \<Rightarrow> (error + unit) \<times> ('v store \<times> printer)"
where
  "Printer_enumerate_st identify hp idx [] = (Inr (), hp)"
| "Printer_enumerate_st identify hp idx (literal # rest) =
     (let hp1 = (if idx \<noteq> 0 then emit '', '' hp else hp) in
      case identify literal hp1 of
        (Inl e, hp2) \<Rightarrow> (Inl e, hp2)
      | (Inr _, hp2) \<Rightarrow> Printer_enumerate_st identify hp2 (idx + 1) rest)"

definition Printer_onInfix_st ::
  "(node \<Rightarrow> 'v store \<times> printer \<Rightarrow> (error + string option) \<times> ('v store \<times> printer)) \<Rightarrow>
     'v store \<times> printer \<Rightarrow> nat \<Rightarrow> (error + string option) \<times> ('v store \<times> printer)"
where
  "Printer_onInfix_st identify hp op =
     (let hp1 = emit ''('' hp in
      case ob_args (operators (fst hp1) op) of
        [] \<Rightarrow> (Inl IndexError, hp1)
      | a0 # _ \<Rightarrow>
          (case identify a0 hp1 of
             (Inl e, hp2) \<Rightarrow> (Inl e, hp2)
           | (Inr _, hp2) \<Rightarrow>
               (let hp3 = emit ('' '' @ str_opt (ob_symbol (operators (fst hp2) op)) @ '' '') hp2 in
                case ob_args (operators (fst hp3) op) of
                  a0' # a1 # _ \<Rightarrow>
                    (case identify a1 hp3 of
                       (Inl e, hp4) \<Rightarrow> (Inl e, hp4)
                     | (Inr _, hp4) \<Rightarrow> (Inr None, emit '')'' hp4))
                | _ \<Rightarrow> (Inl IndexError, hp3))))"

definition Printer_onOperator_st ::
  "(node \<Rightarrow> 'v store \<times> printer \<Rightarrow> (error + string option) \<times> ('v store \<times> printer)) \<Rightarrow>
     'v store \<times> printer \<Rightarrow> nat \<Rightarrow> (error + string option) \<times> ('v store \<times> printer)"
where
  "Printer_onOperator_st identify hp op =
     (if Some (ob_name (operators (fst hp) op)) \<noteq> ob_symbol (operators (fst hp) op)
         \<and> ob_nin (operators (fst hp) op) = 2 then
        (case Printer_onInfix_st identify hp op of
           (Inl e, hp') \<Rightarrow> (Inl e, hp')
         | (Inr _, hp') \<Rightarrow> (Inr None, hp'))
      else
        (let hp1 = emit (ob_name (operators (fst hp) op) @ ''('') hp in
         case Printer_enumerate_st identify hp1 0 (ob_args (operators (fst hp1) op)) of
           (Inl e, hp2) \<Rightarrow> (Inl e, hp2)
         | (Inr _, hp2) \<Rightarrow>
             (let hp3 = emit '')'' hp2 in (Inr (Some (output (snd hp3))), hp3))))"

primrec Printer_identify_st ::
  "('v \<Rightarrow> string) \<Rightarrow> nat \<Rightarrow> node \<Rightarrow> 'v store \<times> printer \<Rightarrow>
     (error + string option) \<times> ('v store \<times> printer)"
where
  "Printer_identify_st str 0 = (\<lambda>n hp. (Inl RecursionError, hp))"
| "Printer_identify_st str (Suc depth) =
     (\<lambda>n hp. case n of
        ArgRef a \<Rightarrow> Printer_onArgument_st str hp a
      | OpRef op \<Rightarrow> Printer_onOperator_st (Printer_identify_st str depth) hp op)"

definition ArgFinder_onArgument_st ::
  "'v store \<times> nat argfinder \<Rightarrow> nat \<Rightarrow> (error + nat list) \<times> ('v store \<times> nat argfinder)" where
  "ArgFinder_onArgument_st haf a =
     (case haf of (h, af) \<Rightarrow>
        (let af' = (if getconsts af \<or> \<not> arg_const (arguments h a)
                    then af\<lparr>args := args af @ [a]\<rparr> else af)
         in (Inr (args af'), (h, af'))))"

fun ArgFinder_for_st ::
  "(node \<Rightarrow> 'v store \<times> nat argfinder \<Rightarrow> (error + nat list) \<times> ('v store \<times> nat argfinder)) \<Rightarrow>
     'v store \<times> nat argfinder \<Rightarrow> node list \<Rightarrow> (error + unit) \<times> ('v store \<times> nat argfinder)"
where
  "ArgFinder_for_st identify haf [] = (Inr (), haf)"
| "ArgFinder_for_st identify haf (arg # rest) =
     (case identify arg haf of
        (Inl e, haf') \<Rightarrow> (Inl e, haf')
      | (Inr _, haf') \<Rightarrow> ArgFinder_for_st identify haf' rest)"

definition ArgFinder_onOperator_st ::
  "(node \<Rightarrow> 'v store \<times> nat argfinder \<Rightarrow> (error + nat list) \<times> ('v store \<times> nat argfinder)) \<Rightarrow>
     'v store \<times> nat argfinder \<Rightarrow> nat \<Rightarrow> (error + nat list) \<times> ('v store \<times> nat argfinder)"
where
  "ArgFinder_onOperator_st identify haf op =
     (case ArgFinder_for_st identify haf (ob_args (operators (fst haf) op)) of
        (Inl e, haf') \<Rightarrow> (Inl e, haf')
      | (Inr _, haf') \<Rightarrow> (Inr (args (snd haf')), haf'))"

primrec ArgFinder_identify_st ::
  "nat \<Rightarrow> node \<Rightarrow> 'v store \<times> nat argfinder \<Rightarrow>
     (error + nat list) \<times> ('v store \<times> nat argfinder)"
where
  "ArgFinder_identify_st 0 = (\<lambda>n haf. (Inl RecursionError, haf))"
| "ArgFinder_identify_st (Suc depth) =
     (\<lambda>n haf. case n of
        ArgRef a \<Rightarrow> ArgFinder_onArgument_st haf a
      | OpRef op \<Rightarrow> ArgFinder_onOperator_st (ArgFinder_identify_st depth) haf op)"

text \<open>
  A store holds the tree \<open>t\<close> at the node \<open>n\<close> when the objects reached from \<open>n\<close>
  have the fields of \<open>t\<close>, child by child. Arguments and subtrees may be shared
  between several parents; a cycle holds no tree. \<open>height\<close> is the number of nested
  \<open>identify\<close> calls that a traversal of the tree makes.
\<close>

fun represents :: "'v store \<Rightarrow> 'v literal \<Rightarrow> node \<Rightarrow> bool"
and represents_op :: "'v store \<Rightarrow> 'v operator \<Rightarrow> nat \<Rightarrow> bool"
and represents_list :: "'v store \<Rightarrow> 'v literal list \<Rightarrow> node list \<Rightarrow> bool"
where
  "represents h (LArgument x) n = (case n of ArgRef a \<Rightarrow> arguments h a = x | OpRef _ \<Rightarrow> False)"
| "represents h (LOperator op) n = (case n of ArgRef _ \<Rightarrow> False | OpRef ob \<Rightarrow> represents_op h op ob)"
| "represents_op h (Operator name symbol nin children) ob =
     (ob_name (operators h ob) = name \<and> ob_symbol (operators h ob) = symbol
      \<and> ob_nin (operators h ob) = nin
      \<and> represents_list h children (ob_args (operators h ob)))"
| "represents_list h [] ns = (ns = [])"
| "represents_list h (t # ts) ns =
     (case ns of [] \<Rightarrow> False | n # ns' \<Rightarrow> represents h t n \<and> represents_list h ts ns')"

fun height :: "'v literal \<Rightarrow> nat"
and height_list :: "'v literal list \<Rightarrow> nat" where
  "height (LArgument x) = 1"
| "height (LOperator (Operator name symbol nin children)) = Suc (height_list children)"
| "height_list [] = 0"
| "height_list (t # ts) = max (height t) (height_list ts)"

section \<open>Notions used in the proofs\<close>

text \<open>
  A Printer method is uniform when what it appends to \<open>output\<close>, and whether it
  raises, returns \<open>None\<close> or returns the output, do not depend on the output it
  starts from.
\<close>

definition ret :: "error + bool \<Rightarrow> string \<Rightarrow> error + string option" where
  "ret r s = (case r of Inl e \<Rightarrow> Inl e | Inr b \<Rightarrow> Inr (if b then Some s else None))"

definition uniform :: "(printer \<Rightarrow> (error + string option) \<times> printer) \<Rightarrow> bool" where
  "uniform f = (\<exists>r s. \<forall>p. f p = (ret r (output p @ s), p\<lparr>output := output p @ s\<rparr>))"

definition uniform_loop :: "(printer \<Rightarrow> (error + unit) \<times> printer) \<Rightarrow> bool" where
  "uniform_loop f = (\<exists>r s. \<forall>p. f p = (r, p\<lparr>output := output p @ s\<rparr>))"

text \<open>
  What an ArgFinder holds after it has met the arguments \<open>xs\<close> in this order, and the
  statement that a traversal of \<open>t\<close> meets the Argument occurrences of \<open>t\<close>.
\<close>

definition collect :: "'v argument argfinder \<Rightarrow> 'v argument list \<Rightarrow> 'v argument argfinder" where
  "collect af xs = af\<lparr>args := args af @ filter (\<lambda>x. getconsts af \<or> \<not> arg_const x) xs\<rparr>"

definition collects :: "'v literal \<Rightarrow> bool" where
  "collects t = (\<forall>af. ArgFinder_identify t af =
     (args (collect af (argument_occurrences t)), collect af (argument_occurrences t)))"

definition collects_op :: "'v operator \<Rightarrow> bool" where
  "collects_op op = (\<forall>af. ArgFinder_onOperator af op =
     (args (collect af (argument_occurrences (LOperator op))),
      collect af (argument_occurrences (LOperator op))))"

text \<open>A well-formed tree has a rendering.\<close>

definition safe :: "('v \<Rightarrow> string) \<Rightarrow> 'v literal \<Rightarrow> bool" where
  "safe str t = (wellformed t \<longrightarrow> (\<exists>s. render str t = Inr s))"

definition safe_op :: "('v \<Rightarrow> string) \<Rightarrow> 'v operator \<Rightarrow> bool" where
  "safe_op str op = (wellformed_op op \<longrightarrow> (\<exists>s. render str (LOperator op) = Inr s))"

text \<open>A function on a store and a visitor that returns the store it was given.\<close>

definition preserving ::
  "(node \<Rightarrow> 'v store \<times> 's \<Rightarrow> 'r \<times> ('v store \<times> 's)) \<Rightarrow> bool" where
  "preserving f = (\<forall>n hs. fst (snd (f n hs)) = fst hs)"

text \<open>
  The traversal of a store agrees with the traversal of the tree it holds: the Printer
  has the same outcome and output; the ArgFinder collects references to the arguments
  that the ArgFinder on the tree collects.
\<close>

definition lift :: "'v store \<Rightarrow> 'r \<times> 's \<Rightarrow> 'r \<times> ('v store \<times> 's)" where
  "lift h rs = (fst rs, (h, snd rs))"

definition agrees ::
  "('v \<Rightarrow> string) \<Rightarrow> 'v store \<Rightarrow>
   (node \<Rightarrow> 'v store \<times> printer \<Rightarrow> (error + string option) \<times> ('v store \<times> printer)) \<Rightarrow>
   'v literal \<Rightarrow> bool" where
  "agrees str h identify t =
     (\<forall>n p. represents h t n \<longrightarrow> identify n (h, p) = lift h (Printer_identify str t p))"

definition deref :: "'v store \<Rightarrow> nat argfinder \<Rightarrow> 'v argument argfinder" where
  "deref h af = \<lparr>args = map (arguments h) (args af), getconsts = getconsts af\<rparr>"

definition agrees_af ::
  "'v store \<Rightarrow>
   (node \<Rightarrow> 'v store \<times> nat argfinder \<Rightarrow> (error + nat list) \<times> ('v store \<times> nat argfinder)) \<Rightarrow>
   'v literal \<Rightarrow> bool" where
  "agrees_af h identify t =
     (\<forall>n af. represents h t n \<longrightarrow>
        (\<exists>af'. identify n (h, af) = (Inr (args af'), (h, af'))
             \<and> deref h af' = snd (ArgFinder_identify t (deref h af))))"

section \<open>The Printer appends, whatever it starts from\<close>

lemma Printer_reset_eq: "Printer_reset p = \<lparr>output = ''''\<rparr>"
  by (simp add: Printer_reset_def)

lemma Printer_init_eq: "Printer_init = \<lparr>output = ''''\<rparr>"
  by (simp add: Printer_init_def Printer_reset_def)

lemma uniformI:
  "(\<And>p. f p = (ret r (output p @ s), p\<lparr>output := output p @ s\<rparr>)) \<Longrightarrow> uniform f"
  unfolding uniform_def by blast

lemma uniform_onArgument: "uniform (\<lambda>p. Printer_onArgument str p a)"
  unfolding uniform_def Printer_onArgument_def
  by (cases "arg_name a")
     (auto simp: Let_def ret_def str_opt_def intro!: exI[of _ "Inr True"])

lemma uniform_enumerate:
  assumes "\<And>t. t \<in> set ts \<Longrightarrow> uniform (Printer_identify str t)"
  shows "uniform_loop (\<lambda>p. Printer_enumerate str p idx ts)"
  using assms
proof (induction ts arbitrary: idx)
  case Nil
  show ?case unfolding uniform_loop_def
    by (rule exI[of _ "Inr ()"], rule exI[of _ "[]"]) simp
next
  case (Cons t ts)
  from Cons.prems[of t] obtain r s where
    t: "\<And>p. Printer_identify str t p = (ret r (output p @ s), p\<lparr>output := output p @ s\<rparr>)"
    unfolding uniform_def by auto
  from Cons.IH[of "Suc idx"] Cons.prems obtain r' s' where
    ts: "\<And>p. Printer_enumerate str p (Suc idx) ts = (r', p\<lparr>output := output p @ s'\<rparr>)"
    unfolding uniform_loop_def by auto
  define sep where "sep = (if idx \<noteq> 0 then '', '' else [])"
  have step: "Printer_enumerate str p idx (t # ts) =
      (case r of Inl e \<Rightarrow> (Inl e, p\<lparr>output := output p @ sep @ s\<rparr>)
       | Inr b \<Rightarrow> (r', p\<lparr>output := output p @ sep @ s @ s'\<rparr>))" for p
    by (cases r) (simp_all add: t ts ret_def Let_def sep_def)
  show ?case
  proof (cases r)
    case (Inl e)
    show ?thesis unfolding uniform_loop_def
      by (rule exI[of _ "Inl e"], rule exI[of _ "sep @ s"])
         (simp add: step Inl del: Printer_enumerate.simps)
  next
    case (Inr b)
    show ?thesis unfolding uniform_loop_def
      by (rule exI[of _ r'], rule exI[of _ "sep @ s @ s'"])
         (simp add: step Inr del: Printer_enumerate.simps)
  qed
qed

lemma uniform_onInfix:
  assumes "\<And>t. t \<in> set children \<Longrightarrow> uniform (Printer_identify str t)"
  shows "uniform (\<lambda>p. Printer_onInfix str p (Operator name symbol nin children))"
proof (cases children)
  case Nil
  show ?thesis
    by (rule uniformI[of _ "Inl IndexError" "''(''"]) (simp add: Nil ret_def)
next
  case (Cons a rest)
  from assms[of a] Cons obtain ra sa where
    a: "\<And>p. Printer_identify str a p = (ret ra (output p @ sa), p\<lparr>output := output p @ sa\<rparr>)"
    unfolding uniform_def by auto
  show ?thesis
  proof (cases ra)
    case (Inl e)
    show ?thesis
      by (rule uniformI[of _ "Inl e" "''('' @ sa"]) (simp add: Cons a Inl ret_def)
  next
    case first: (Inr ba)
    show ?thesis
    proof (cases rest)
      case Nil
      show ?thesis
        by (rule uniformI[of _ "Inl IndexError" "''('' @ sa @ '' '' @ str_opt symbol @ '' ''"])
           (simp add: Cons Nil a first ret_def)
    next
      case (Cons b rest')
      from assms[of b] Cons \<open>children = a # rest\<close> obtain rb sb where
        b: "\<And>p. Printer_identify str b p = (ret rb (output p @ sb), p\<lparr>output := output p @ sb\<rparr>)"
        unfolding uniform_def by auto
      show ?thesis
      proof (cases rb)
        case (Inl e)
        show ?thesis
          by (rule uniformI[of _ "Inl e" "''('' @ sa @ '' '' @ str_opt symbol @ '' '' @ sb"])
             (simp add: \<open>children = a # rest\<close> Cons a b first Inl ret_def)
      next
        case (Inr bb)
        show ?thesis
          by (rule uniformI[of _ "Inr False"
                "''('' @ sa @ '' '' @ str_opt symbol @ '' '' @ sb @ '')''"])
             (simp add: \<open>children = a # rest\<close> Cons a b first Inr ret_def)
      qed
    qed
  qed
qed

lemma uniform_onOperator:
  assumes "\<And>t. t \<in> set children \<Longrightarrow> uniform (Printer_identify str t)"
  shows "uniform (\<lambda>p. Printer_onOperator str p (Operator name symbol nin children))"
proof (cases "Some name \<noteq> symbol \<and> nin = 2")
  case True
  from uniform_onInfix[OF assms, of children name symbol nin] obtain r s where
    i: "\<And>p. Printer_onInfix str p (Operator name symbol nin children) =
          (ret r (output p @ s), p\<lparr>output := output p @ s\<rparr>)"
    unfolding uniform_def by auto
  have step: "Printer_onOperator str p (Operator name symbol nin children) =
      (case r of Inl e \<Rightarrow> (Inl e, p\<lparr>output := output p @ s\<rparr>)
       | Inr _ \<Rightarrow> (Inr None, p\<lparr>output := output p @ s\<rparr>))" for p
    unfolding Printer_onOperator.simps i using True
    by (cases r) (simp_all add: ret_def)
  show ?thesis
    by (rule uniformI[of _ "case r of Inl e \<Rightarrow> Inl e | Inr _ \<Rightarrow> Inr False" s])
       (simp add: step ret_def del: Printer_onOperator.simps split: sum.splits)
next
  case False
  from uniform_enumerate[OF assms, of children 0] obtain r s where
    l: "\<And>p. Printer_enumerate str p 0 children = (r, p\<lparr>output := output p @ s\<rparr>)"
    unfolding uniform_loop_def by auto
  show ?thesis
  proof (cases r)
    case (Inl e)
    show ?thesis
      by (rule uniformI[of _ "Inl e" "name @ ''('' @ s"])
         (use False in \<open>auto simp add: l Inl ret_def Let_def\<close>)
  next
    case (Inr u)
    show ?thesis
      by (rule uniformI[of _ "Inr True" "name @ ''('' @ s @ '')''"])
         (use False in \<open>auto simp add: l Inr ret_def Let_def\<close>)
  qed
qed

lemma uniform_identify_onOperator:
  "uniform (Printer_identify str t) \<and> uniform (\<lambda>p. Printer_onOperator str p op)"
proof (rule literal_operator.induct)
  fix a :: "'a argument"
  show "uniform (Printer_identify str (LArgument a))"
    using uniform_onArgument[of str a] by (simp add: uniform_def)
next
  fix op :: "'a operator"
  assume "uniform (\<lambda>p. Printer_onOperator str p op)"
  then show "uniform (Printer_identify str (LOperator op))" by (simp add: uniform_def)
next
  fix name symbol nin and children :: "'a literal list"
  assume "\<And>t. t \<in> set children \<Longrightarrow> uniform (Printer_identify str t)"
  then show "uniform (\<lambda>p. Printer_onOperator str p (Operator name symbol nin children))"
    by (rule uniform_onOperator)
qed

lemma uniform_identify: "uniform (Printer_identify str t)"
  using uniform_identify_onOperator[of str t] by simp

section \<open>Traversals in terms of the renderings of the children\<close>

lemma identify_of_render:
  assumes "render str t = Inr s"
  shows "\<exists>v. Printer_identify str t p = (Inr v, p\<lparr>output := output p @ s\<rparr>)"
proof -
  from uniform_identify[of str t] obtain r s0 where
    u: "\<And>p. Printer_identify str t p = (ret r (output p @ s0), p\<lparr>output := output p @ s0\<rparr>)"
    unfolding uniform_def by auto
  from assms have "s0 = s \<and> (\<exists>b. r = Inr b)"
    by (cases r) (simp_all add: render_def u Printer_init_eq ret_def)
  then show ?thesis by (auto simp: u ret_def)
qed

lemma identify_of_render_error:
  assumes "render str t = Inl e"
  shows "\<exists>p'. Printer_identify str t p = (Inl e, p')"
proof -
  from uniform_identify[of str t] obtain r s0 where
    u: "\<And>p. Printer_identify str t p = (ret r (output p @ s0), p\<lparr>output := output p @ s0\<rparr>)"
    unfolding uniform_def by auto
  from assms have "r = Inl e"
    by (cases r) (simp_all add: render_def u Printer_init_eq ret_def)
  then show ?thesis by (simp add: u ret_def)
qed

lemma enumerate_of_render:
  assumes "map (render str) ts = map Inr rs"
  shows "Printer_enumerate str p idx ts =
    (Inr (), p\<lparr>output := output p @ (if idx \<noteq> 0 \<and> ts \<noteq> [] then '', '' else '''')
                                  @ comma_join rs\<rparr>)"
  using assms
proof (induction ts arbitrary: rs p idx)
  case Nil
  then show ?case by simp
next
  case (Cons t ts)
  from Cons.prems obtain s rs' where rs: "rs = s # rs'" and t: "render str t = Inr s"
    and ts: "map (render str) ts = map Inr rs'"
    by (cases rs) auto
  have join: "comma_join (s # rs') = s @ (if ts \<noteq> [] then '', '' else '''') @ comma_join rs'"
    using ts by (cases rs'; cases ts) auto
  show ?case
  proof (cases "idx = 0")
    case True
    from identify_of_render[OF t, of p] obtain v where
      v: "Printer_identify str t p = (Inr v, p\<lparr>output := output p @ s\<rparr>)" ..
    show ?thesis using True by (simp add: v Cons.IH[OF ts] rs join del: comma_join.simps)
  next
    case False
    from identify_of_render[OF t, of "p\<lparr>output := output p @ '', ''\<rparr>"] obtain v where
      v: "Printer_identify str t (p\<lparr>output := output p @ '', ''\<rparr>) =
            (Inr v, p\<lparr>output := output p @ '', '' @ s\<rparr>)" by auto
    show ?thesis using False by (simp add: v Cons.IH[OF ts] rs join del: comma_join.simps)
  qed
qed

lemma onOperator_call:
  assumes "nin \<noteq> 2 \<or> symbol = Some name"
    and "map (render str) children = map Inr rs"
  shows "Printer_onOperator str p (Operator name symbol nin children) =
    (Inr (Some (output p @ name @ ''('' @ comma_join rs @ '')'')),
     p\<lparr>output := output p @ name @ ''('' @ comma_join rs @ '')''\<rparr>)"
proof -
  from assms(1) have no: "\<not> (Some name \<noteq> symbol \<and> nin = 2)" by auto
  show ?thesis
    by (simp only: Printer_onOperator.simps no if_False Let_def
          enumerate_of_render[OF assms(2)])
       simp
qed

lemma onInfix_two:
  assumes "render str a = Inr ra" and "render str b = Inr rb"
  shows "Printer_onInfix str p (Operator name symbol nin (a # b # rest)) =
    (Inr None, p\<lparr>output := output p @ ''('' @ ra @ '' '' @ str_opt symbol @ '' '' @ rb @ '')''\<rparr>)"
proof -
  from identify_of_render[OF assms(1), of "p\<lparr>output := output p @ ''(''\<rparr>"] obtain va where
    a: "Printer_identify str a (p\<lparr>output := output p @ ''(''\<rparr>) =
          (Inr va, p\<lparr>output := output p @ ''('' @ ra\<rparr>)"
    by auto
  from identify_of_render[OF assms(2),
      of "p\<lparr>output := output p @ ''('' @ ra @ '' '' @ str_opt symbol @ '' ''\<rparr>"]
  obtain vb where
    b: "Printer_identify str b (p\<lparr>output := output p @ ''('' @ ra @ '' '' @ str_opt symbol @ '' ''\<rparr>) =
          (Inr vb, p\<lparr>output := output p @ ''('' @ ra @ '' '' @ str_opt symbol @ '' '' @ rb\<rparr>)"
    by auto
  show ?thesis using a b by simp
qed

lemma onOperator_infix:
  assumes "Some name \<noteq> symbol" and "render str a = Inr ra" and "render str b = Inr rb"
  shows "Printer_onOperator str p (Operator name symbol 2 (a # b # rest)) =
    (Inr None, p\<lparr>output := output p @ ''('' @ ra @ '' '' @ str_opt symbol @ '' '' @ rb @ '')''\<rparr>)"
  using assms(1) by (simp add: onInfix_two[OF assms(2,3)] del: Printer_onInfix.simps)

section \<open>Well-formed trees are rendered; where the infix branch fails\<close>

lemma renderings_exist:
  assumes "\<And>t. t \<in> set ts \<Longrightarrow> \<exists>s. render str t = Inr s"
  shows "\<exists>rs. map (render str) ts = map Inr rs"
  using assms
proof (induction ts)
  case Nil
  show ?case by simp
next
  case (Cons t ts)
  from Cons.prems[of t] obtain s where s: "render str t = Inr s" by auto
  from Cons.IH Cons.prems obtain rs where rs: "map (render str) ts = map Inr rs" by auto
  have "map (render str) (t # ts) = map Inr (s # rs)" by (simp add: s rs)
  then show ?case ..
qed

lemma render_LOperator:
  "Printer_onOperator str Printer_init op = (Inr v, p') \<Longrightarrow>
   render str (LOperator op) = Inr (output p')"
  by (simp add: render_def)

lemma safe_Operator:
  assumes "\<And>t. t \<in> set children \<Longrightarrow> safe str t"
  shows "safe_op str (Operator name symbol nin children)"
  unfolding safe_op_def
proof
  assume wf: "wellformed_op (Operator name symbol nin children)"
  then have len: "int (length children) = nin" and all: "\<forall>t \<in> set children. wellformed t"
    by (simp_all add: list_all_iff)
  from assms all have ok: "\<And>t. t \<in> set children \<Longrightarrow> \<exists>s. render str t = Inr s"
    by (simp add: safe_def)
  show "\<exists>s. render str (LOperator (Operator name symbol nin children)) = Inr s"
  proof (cases "Some name \<noteq> symbol \<and> nin = 2")
    case True
    with len have "length children = 2" by simp
    then obtain a b where ab: "children = [a, b]"
      by (cases children; cases "tl children") auto
    from ok[of a] ab obtain ra where ra: "render str a = Inr ra" by auto
    from ok[of b] ab obtain rb where rb: "render str b = Inr rb" by auto
    from True have n: "Some name \<noteq> symbol" and k: "nin = 2" by simp_all
    show ?thesis
      using render_LOperator[OF onOperator_infix[OF n ra rb, of Printer_init "[]"]]
      by (auto simp: ab k)
  next
    case False
    then have c: "nin \<noteq> 2 \<or> symbol = Some name" by auto
    from renderings_exist[of children str] ok obtain rs where
      rs: "map (render str) children = map Inr rs" by auto
    show ?thesis
      using render_LOperator[OF onOperator_call[OF c rs, of Printer_init]] by auto
  qed
qed

lemma safe_both: "safe str t \<and> safe_op str op"
proof (rule literal_operator.induct)
  fix a :: "'a argument"
  show "safe str (LArgument a)"
    by (simp add: safe_def render_def Printer_onArgument_def Let_def)
next
  fix op :: "'a operator"
  assume "safe_op str op"
  then show "safe str (LOperator op)" by (simp add: safe_def safe_op_def)
next
  fix name symbol nin and children :: "'a literal list"
  assume "\<And>t. t \<in> set children \<Longrightarrow> safe str t"
  then show "safe_op str (Operator name symbol nin children)" by (rule safe_Operator)
qed

lemma wellformed_renders: "wellformed t \<Longrightarrow> \<exists>s. render str t = Inr s"
  using conjunct1[OF safe_both, of str t] by (simp add: safe_def)

lemma onInfix_none:
  "Printer_onInfix str p (Operator name symbol nin []) =
     (Inl IndexError, p\<lparr>output := output p @ ''(''\<rparr>)"
  by simp

lemma onInfix_one:
  assumes "render str a = Inr ra"
  shows "Printer_onInfix str p (Operator name symbol nin [a]) =
     (Inl IndexError, p\<lparr>output := output p @ ''('' @ ra @ '' '' @ str_opt symbol @ '' ''\<rparr>)"
proof -
  from identify_of_render[OF assms, of "p\<lparr>output := output p @ ''(''\<rparr>"] obtain va where
    "Printer_identify str a (p\<lparr>output := output p @ ''(''\<rparr>) =
       (Inr va, p\<lparr>output := output p @ ''('' @ ra\<rparr>)"
    by auto
  then show ?thesis by simp
qed

lemma onInfix_first_raises:
  assumes "render str a = Inl e"
  shows "fst (Printer_onInfix str p (Operator name symbol nin (a # rest))) = Inl e"
proof -
  from identify_of_render_error[OF assms, of "p\<lparr>output := output p @ ''(''\<rparr>"] obtain p' where
    "Printer_identify str a (p\<lparr>output := output p @ ''(''\<rparr>) = (Inl e, p')"
    by auto
  then show ?thesis by simp
qed

section \<open>The ArgFinder collects the occurrences in order\<close>

lemma collect_Nil: "collect af [] = af"
  by (simp add: collect_def)

lemma collect_append: "collect (collect af xs) ys = collect af (xs @ ys)"
  by (simp add: collect_def)

lemma ArgFinder_for_collect:
  assumes "\<And>t. t \<in> set ts \<Longrightarrow> collects t"
  shows "ArgFinder_for af ts = collect af (concat (map argument_occurrences ts))"
  using assms
proof (induction ts arbitrary: af)
  case Nil
  show ?case by (simp add: collect_Nil)
next
  case (Cons t ts)
  from Cons.prems[of t] have t: "ArgFinder_identify t af =
     (args (collect af (argument_occurrences t)), collect af (argument_occurrences t))"
    by (simp add: collects_def)
  have ts: "ArgFinder_for af' ts = collect af' (concat (map argument_occurrences ts))" for af'
    by (rule Cons.IH) (simp add: Cons.prems)
  show ?case by (simp add: t ts collect_append)
qed

lemma collects_both: "collects (t :: 'a literal) \<and> collects_op (op :: 'a operator)"
proof (rule literal_operator.induct)
  fix a :: "'a argument"
  show "collects (LArgument a)"
    by (simp add: collects_def collect_def ArgFinder_onArgument_def Let_def)
next
  fix op :: "'a operator"
  assume "collects_op op"
  then show "collects (LOperator op)" by (simp add: collects_def collects_op_def)
next
  fix name symbol nin and children :: "'a literal list"
  assume "\<And>t. t \<in> set children \<Longrightarrow> collects t"
  then have "ArgFinder_for af children =
      collect af (concat (map argument_occurrences children))" for af
    by (rule ArgFinder_for_collect)
  then show "collects_op (Operator name symbol nin children)"
    by (simp add: collects_op_def Let_def)
qed

lemma ArgFinder_identify_collect:
  "ArgFinder_identify t af =
     (args (collect af (argument_occurrences t)), collect af (argument_occurrences t))"
  using conjunct1[OF collects_both, of t] by (simp add: collects_def)

lemma ArgFinder_reset_eq: "ArgFinder_reset af = ArgFinder_init (getconsts af)"
  by (simp add: ArgFinder_reset_def ArgFinder_init_def)

lemma ArgFinder_identify_getconsts: "getconsts (snd (ArgFinder_identify t af)) = getconsts af"
  by (simp add: ArgFinder_identify_collect collect_def)

section \<open>The store after a traversal\<close>

lemma emit_store: "fst (emit s hp) = fst hp"
  by (cases hp) (simp add: emit_def)

lemma Printer_onArgument_st_store: "fst (snd (Printer_onArgument_st str hp a)) = fst hp"
  by (cases hp) (simp add: Printer_onArgument_st_def split: prod.splits)

lemma preservingD: "preserving f \<Longrightarrow> fst (snd (f n hs)) = fst hs"
  unfolding preserving_def by blast

lemma preservingI: "(\<And>n hs. fst (snd (f n hs)) = fst hs) \<Longrightarrow> preserving f"
  unfolding preserving_def by blast

lemma Printer_enumerate_st_store:
  assumes "preserving identify"
  shows "fst (snd (Printer_enumerate_st identify hp idx ns)) = fst hp"
proof (induction ns arbitrary: hp idx)
  case Nil
  show ?case by simp
next
  case (Cons n ns)
  define hp1 where "hp1 = (if idx \<noteq> 0 then emit '', '' hp else hp)"
  have h1: "fst hp1 = fst hp" by (simp add: hp1_def emit_store)
  obtain r hp2 where i: "identify n hp1 = (r, hp2)" by (cases "identify n hp1")
  from assms have "fst (snd (identify n hp1)) = fst hp1" by (rule preservingD)
  with i h1 have h2: "fst hp2 = fst hp" by simp
  have step: "Printer_enumerate_st identify hp idx (n # ns) =
      (case r of Inl e \<Rightarrow> (Inl e, hp2)
       | Inr _ \<Rightarrow> Printer_enumerate_st identify hp2 (idx + 1) ns)"
    using i by (cases r) (simp_all add: hp1_def Let_def)
  show ?case
  proof (cases r)
    case (Inl e)
    with h2 show ?thesis by (simp add: step del: Printer_enumerate_st.simps)
  next
    case (Inr v)
    with h2 Cons.IH[of hp2 "idx + 1"] show ?thesis
      by (simp add: step del: Printer_enumerate_st.simps)
  qed
qed

lemma Printer_onInfix_st_store:
  assumes "preserving identify"
  shows "fst (snd (Printer_onInfix_st identify hp op)) = fst hp"
proof -
  have step: "fst (snd (identify n hp')) = fst hp'" for n hp'
    using assms by (rule preservingD)
  have pair: "identify n hp' = (r, hp'') \<Longrightarrow> fst hp'' = fst hp'" for n hp' r hp''
    using step[of n hp'] by simp
  show ?thesis
    unfolding Printer_onInfix_st_def Let_def
    by (auto simp: emit_store split: list.splits prod.splits sum.splits dest!: pair)
qed

lemma Printer_onOperator_st_store:
  assumes "preserving identify"
  shows "fst (snd (Printer_onOperator_st identify hp op)) = fst hp"
proof -
  have inf: "Printer_onInfix_st identify hp op = (r, hp') \<Longrightarrow> fst hp' = fst hp" for r hp'
    using Printer_onInfix_st_store[OF assms, of hp op] by simp
  have loop: "Printer_enumerate_st identify hp1 idx ns = (r, hp') \<Longrightarrow> fst hp' = fst hp1"
    for hp1 idx ns r hp'
    using Printer_enumerate_st_store[OF assms, of hp1 idx ns] by simp
  show ?thesis
    unfolding Printer_onOperator_st_def Let_def
    by (auto simp: emit_store split: prod.splits sum.splits dest!: inf loop)
qed

lemma Printer_identify_st_preserving: "preserving (Printer_identify_st str depth)"
proof (induction depth)
  case 0
  show ?case by (rule preservingI) simp
next
  case (Suc depth)
  show ?case
    by (rule preservingI)
       (simp add: Printer_onArgument_st_store Printer_onOperator_st_store[OF Suc]
          split: node.splits)
qed

lemma ArgFinder_onArgument_st_store: "fst (snd (ArgFinder_onArgument_st haf a)) = fst haf"
  by (cases haf) (simp add: ArgFinder_onArgument_st_def Let_def)

lemma ArgFinder_for_st_store:
  assumes "preserving identify"
  shows "fst (snd (ArgFinder_for_st identify haf ns)) = fst haf"
proof (induction ns arbitrary: haf)
  case Nil
  show ?case by simp
next
  case (Cons n ns)
  obtain r haf' where i: "identify n haf = (r, haf')" by (cases "identify n haf")
  from assms have "fst (snd (identify n haf)) = fst haf" by (rule preservingD)
  with i have h: "fst haf' = fst haf" by simp
  show ?case
  proof (cases r)
    case (Inl e)
    with i h show ?thesis by simp
  next
    case (Inr v)
    with i h Cons.IH[of haf'] show ?thesis by simp
  qed
qed

lemma ArgFinder_onOperator_st_store:
  assumes "preserving identify"
  shows "fst (snd (ArgFinder_onOperator_st identify haf op)) = fst haf"
proof -
  have loop: "ArgFinder_for_st identify haf ns = (r, haf') \<Longrightarrow> fst haf' = fst haf"
    for ns r haf'
    using ArgFinder_for_st_store[OF assms, of haf ns] by simp
  show ?thesis
    unfolding ArgFinder_onOperator_st_def
    by (auto split: prod.splits sum.splits dest!: loop)
qed

lemma ArgFinder_identify_st_preserving: "preserving (ArgFinder_identify_st depth)"
proof (induction depth)
  case 0
  show ?case by (rule preservingI) simp
next
  case (Suc depth)
  show ?case
    by (rule preservingI)
       (simp add: ArgFinder_onArgument_st_store ArgFinder_onOperator_st_store[OF Suc]
          split: node.splits)
qed

section \<open>A store that holds a tree is traversed as the tree\<close>

text \<open>
  With the depth of calls that the tree needs, the visitors on a store do at a node
  that holds a tree what the visitors on trees do on that tree. The claims about
  results are proved on trees.
\<close>

lemma agrees_enumerate:
  assumes "\<And>t. t \<in> set ts \<Longrightarrow> agrees str h identify t"
    and "represents_list h ts ns"
  shows "Printer_enumerate_st identify (h, p) idx ns = lift h (Printer_enumerate str p idx ts)"
  using assms
proof (induction ts arbitrary: ns p idx)
  case Nil
  then show ?case by (simp add: lift_def)
next
  case (Cons t ts)
  from Cons.prems(2) obtain n ns' where ns: "ns = n # ns'" and n: "represents h t n"
    and ns': "represents_list h ts ns'"
    by (cases ns) auto
  have t: "identify n (h, q) = lift h (Printer_identify str t q)" for q
    using Cons.prems(1)[of t] n by (simp add: agrees_def)
  have ts: "Printer_enumerate_st identify (h, q) i ns' = lift h (Printer_enumerate str q i ts)"
    for q i
    by (rule Cons.IH) (simp_all add: Cons.prems(1) ns')
  show ?case
    by (cases "Printer_identify str t (if idx \<noteq> 0 then p\<lparr>output := output p @ '', ''\<rparr> else p)")
       (auto simp: ns t ts lift_def emit_def Let_def split: sum.splits)
qed

lemma agrees_onInfix:
  assumes "\<And>t. t \<in> set children \<Longrightarrow> agrees str h identify t"
    and "represents_op h (Operator name symbol nin children) ob"
  shows "Printer_onInfix_st identify (h, p) ob =
           lift h (Printer_onInfix str p (Operator name symbol nin children))"
proof (cases children)
  case Nil
  with assms(2) show ?thesis
    by (simp add: Printer_onInfix_st_def emit_def lift_def)
next
  case (Cons a rest)
  with assms(2) obtain n ns' where ns: "ob_args (operators h ob) = n # ns'"
    and n: "represents h a n" and ns': "represents_list h rest ns'"
    by (cases "ob_args (operators h ob)") auto
  from assms(2) have sym: "ob_symbol (operators h ob) = symbol" by simp
  have a: "identify n (h, q) = lift h (Printer_identify str a q)" for q
    using assms(1)[of a] n Cons by (simp add: agrees_def)
  show ?thesis
  proof (cases rest)
    case Nil
    with ns' have "ns' = []" by simp
    then show ?thesis
      by (cases "Printer_identify str a (p\<lparr>output := output p @ ''(''\<rparr>)")
         (auto simp: Printer_onInfix_st_def emit_def lift_def Let_def Cons Nil ns a sym
            split: sum.splits)
  next
    case (Cons b rest')
    with ns' obtain m ms where ms: "ns' = m # ms" and m: "represents h b m"
      by (cases ns') auto
    have b: "identify m (h, q) = lift h (Printer_identify str b q)" for q
      using assms(1)[of b] m Cons \<open>children = a # rest\<close> by (simp add: agrees_def)
    show ?thesis
      by (cases "Printer_identify str a (p\<lparr>output := output p @ ''(''\<rparr>)";
          cases "Printer_identify str b
            (snd (Printer_identify str a (p\<lparr>output := output p @ ''(''\<rparr>))
               \<lparr>output := output (snd (Printer_identify str a (p\<lparr>output := output p @ ''(''\<rparr>)))
                   @ '' '' @ str_opt symbol @ '' ''\<rparr>)")
         (auto simp: Printer_onInfix_st_def emit_def lift_def Let_def Cons
            \<open>children = a # rest\<close> ns ms a b sym split: sum.splits)
  qed
qed

lemma agrees_onOperator:
  assumes "\<And>t. t \<in> set children \<Longrightarrow> agrees str h identify t"
    and "represents_op h (Operator name symbol nin children) ob"
  shows "Printer_onOperator_st identify (h, p) ob =
           lift h (Printer_onOperator str p (Operator name symbol nin children))"
proof -
  from assms(2) have f: "ob_name (operators h ob) = name" "ob_symbol (operators h ob) = symbol"
    "ob_nin (operators h ob) = nin" "represents_list h children (ob_args (operators h ob))"
    by simp_all
  show ?thesis
  proof (cases "Some name \<noteq> symbol \<and> nin = 2")
    case True
    have st: "Printer_onOperator_st identify (h, p) ob =
        (case Printer_onInfix_st identify (h, p) ob of
           (Inl e, hp') \<Rightarrow> (Inl e, hp') | (Inr _, hp') \<Rightarrow> (Inr None, hp'))"
      using True by (simp add: Printer_onOperator_st_def f)
    have tr: "Printer_onOperator str p (Operator name symbol nin children) =
        (case Printer_onInfix str p (Operator name symbol nin children) of
           (Inl e, p') \<Rightarrow> (Inl e, p') | (Inr _, p') \<Rightarrow> (Inr None, p'))"
      by (simp only: Printer_onOperator.simps if_P[OF True])
    have inf: "Printer_onInfix_st identify (h, p) ob =
        lift h (Printer_onInfix str p (Operator name symbol nin children))"
      by (rule agrees_onInfix) (simp_all add: assms del: represents_op.simps)
    obtain r q where i: "Printer_onInfix str p (Operator name symbol nin children) = (r, q)"
      by (cases "Printer_onInfix str p (Operator name symbol nin children)")
    show ?thesis
      unfolding st tr inf i
      by (cases r) (simp_all add: lift_def)
  next
    case False
    have loop: "Printer_enumerate_st identify (h, q) 0 (ob_args (operators h ob)) =
        lift h (Printer_enumerate str q 0 children)" for q
      by (rule agrees_enumerate) (simp_all add: assms(1) f)
    show ?thesis
      using False
      by (cases "Printer_enumerate str (p\<lparr>output := output p @ name @ ''(''\<rparr>) 0 children")
         (auto simp: Printer_onOperator_st_def f emit_def loop lift_def Let_def
            split: sum.splits)
  qed
qed

lemma height_list_bound: "t \<in> set ts \<Longrightarrow> height t \<le> height_list ts"
  by (induction ts) auto

lemma Printer_identify_st_agrees:
  "height t \<le> depth \<Longrightarrow> agrees str h (Printer_identify_st str depth) t"
proof (induction depth arbitrary: t)
  case 0
  then show ?case
  proof (cases t)
    case (LArgument x)
    with 0 show ?thesis by simp
  next
    case (LOperator op)
    with 0 show ?thesis by (cases op) simp
  qed
next
  case (Suc depth)
  show ?case
  proof (cases t)
    case (LArgument x)
    show ?thesis
      unfolding agrees_def LArgument
      by (auto simp: Printer_onArgument_st_def lift_def split: node.splits prod.splits)
  next
    case (LOperator op)
    obtain name symbol nin children where op: "op = Operator name symbol nin children"
      by (cases op)
    with Suc.prems LOperator have "height_list children \<le> depth" by simp
    then have kids: "\<And>c. c \<in> set children \<Longrightarrow> agrees str h (Printer_identify_st str depth) c"
      using height_list_bound Suc.IH by (meson le_trans)
    show ?thesis
      unfolding agrees_def LOperator op
    proof (intro allI impI)
      fix n p
      assume "represents h (LOperator (Operator name symbol nin children)) n"
      then obtain ob where n: "n = OpRef ob"
        and ob: "represents_op h (Operator name symbol nin children) ob"
        by (cases n) auto
      show "Printer_identify_st str (Suc depth) n (h, p) =
          lift h (Printer_identify str (LOperator (Operator name symbol nin children)) p)"
        using agrees_onOperator[OF kids ob, where p = p]
        by (simp add: n del: Printer_onOperator.simps)
    qed
  qed
qed

lemma Printer_on_store_is_Printer_on_tree:
  assumes "represents h t n" and "height t \<le> depth"
  shows "Printer_identify_st str depth n (h, p) =
           (fst (Printer_identify str t p), (h, snd (Printer_identify str t p)))"
  using Printer_identify_st_agrees[OF assms(2), of str h] assms(1)
  by (simp add: agrees_def lift_def)

lemma agrees_af_for:
  assumes "\<And>t. t \<in> set ts \<Longrightarrow> agrees_af h identify t"
    and "represents_list h ts ns"
  shows "\<exists>af'. ArgFinder_for_st identify (h, af) ns = (Inr (), (h, af'))
             \<and> deref h af' = ArgFinder_for (deref h af) ts"
  using assms
proof (induction ts arbitrary: ns af)
  case Nil
  then show ?case by simp
next
  case (Cons t ts)
  from Cons.prems(2) obtain n ns' where ns: "ns = n # ns'" and n: "represents h t n"
    and ns': "represents_list h ts ns'"
    by (cases ns) auto
  from Cons.prems(1)[of t] n obtain af1 where
    t: "identify n (h, af) = (Inr (args af1), (h, af1))"
    and t': "deref h af1 = snd (ArgFinder_identify t (deref h af))"
    unfolding agrees_af_def by auto
  from Cons.IH[OF _ ns', of af1] Cons.prems(1) obtain af2 where
    ts: "ArgFinder_for_st identify (h, af1) ns' = (Inr (), (h, af2))"
    and ts': "deref h af2 = ArgFinder_for (deref h af1) ts"
    by auto
  have "ArgFinder_for_st identify (h, af) ns = (Inr (), (h, af2))
      \<and> deref h af2 = ArgFinder_for (deref h af) (t # ts)"
    by (simp add: ns t ts ts' t' split: prod.splits)
  then show ?case ..
qed

lemma ArgFinder_identify_st_agrees:
  "height t \<le> depth \<Longrightarrow> agrees_af h (ArgFinder_identify_st depth) t"
proof (induction depth arbitrary: t)
  case 0
  then show ?case
  proof (cases t)
    case (LArgument x)
    with 0 show ?thesis by simp
  next
    case (LOperator op)
    with 0 show ?thesis by (cases op) simp
  qed
next
  case (Suc depth)
  show ?case
  proof (cases t)
    case (LArgument x)
    show ?thesis
      unfolding agrees_af_def LArgument
      by (auto simp: ArgFinder_onArgument_st_def ArgFinder_onArgument_def deref_def Let_def
            split: node.splits)
  next
    case (LOperator op)
    obtain name symbol nin children where op: "op = Operator name symbol nin children"
      by (cases op)
    with Suc.prems LOperator have "height_list children \<le> depth" by simp
    then have kids: "\<And>c. c \<in> set children \<Longrightarrow> agrees_af h (ArgFinder_identify_st depth) c"
      using height_list_bound Suc.IH by (meson le_trans)
    show ?thesis
      unfolding agrees_af_def LOperator op
    proof (intro allI impI)
      fix n af
      assume "represents h (LOperator (Operator name symbol nin children)) n"
      then obtain ob where n: "n = OpRef ob"
        and ob: "represents_list h children (ob_args (operators h ob))"
        by (cases n) auto
      from agrees_af_for[OF kids ob, where af = af] obtain af' where
        l: "ArgFinder_for_st (ArgFinder_identify_st depth) (h, af) (ob_args (operators h ob)) =
              (Inr (), (h, af'))"
        and l': "deref h af' = ArgFinder_for (deref h af) children"
        by auto
      have "ArgFinder_identify_st (Suc depth) n (h, af) = (Inr (args af'), (h, af'))
          \<and> deref h af' =
              snd (ArgFinder_identify (LOperator (Operator name symbol nin children)) (deref h af))"
        by (simp add: n ArgFinder_onOperator_st_def l l' Let_def)
      then show "\<exists>af'. ArgFinder_identify_st (Suc depth) n (h, af) = (Inr (args af'), (h, af'))
          \<and> deref h af' =
              snd (ArgFinder_identify (LOperator (Operator name symbol nin children)) (deref h af))"
        ..
    qed
  qed
qed

lemma ArgFinder_on_store_is_ArgFinder_on_tree:
  assumes "represents h t n" and "height t \<le> depth"
  shows "\<exists>af'. ArgFinder_identify_st depth n (h, af) = (Inr (args af'), (h, af'))
             \<and> deref h af' = snd (ArgFinder_identify t (deref h af))"
  using ArgFinder_identify_st_agrees[OF assms(2), of h] assms(1)
  by (simp add: agrees_af_def)

section \<open>What the visitor methods return\<close>

text \<open>
  C1: every visitor operation returns the visitor's accumulated result, also when the
  operator is rendered by the infix branch. The code does not do so there:
  \<open>onOperator\<close> leaves its infix branch by a bare \<^verbatim>\<open>return\<close>, while its
  function-call branch ends with \<^verbatim>\<open>return self.output\<close>. On the operator
  \<open>add\<close> with symbol \<open>+\<close> over the arguments \<open>x\<close> and \<open>y\<close>, a new Printer
  accumulates \<open>(x + y)\<close> and \<open>onOperator\<close>, and with it the root's \<open>identify\<close>,
  returns \<open>None\<close>.
\<close>

theorem Printer_onOperator_infix_returns_None:
  "Printer_onOperator str Printer_init
     (Operator ''add'' (Some ''+'') 2
        [LArgument (Argument (Some ''x'') v False), LArgument (Argument (Some ''y'') w False)])
   = (Inr None, \<lparr>output = ''(x + y)''\<rparr>)
   \<and> Printer_identify str
     (LOperator (Operator ''add'' (Some ''+'') 2
        [LArgument (Argument (Some ''x'') v False), LArgument (Argument (Some ''y'') w False)]))
     Printer_init
   = (Inr None, \<lparr>output = ''(x + y)''\<rparr>)"
  by (simp add: Printer_init_eq Printer_onArgument_def str_opt_def)

section \<open>The two forms of an operator\<close>

text \<open>
  C2: an operator with \<open>nin = 2\<close> whose name differs from its symbol is rendered as
  an opening parenthesis, the rendering of its first child, a space, the symbol, a
  space, the rendering of its second child and a closing parenthesis; the string begins
  with \<open>(\<close> and ends with \<open>)\<close>, whatever the children are. The two children are
  \<open>args[0]\<close> and \<open>args[1]\<close>, each with a rendering of its own; the symbol is written
  as \<^verbatim>\<open>"%s"\<close> writes it (\<open>str_opt\<close>). The same text is appended to the output of
  a Printer that has accumulated something already.
\<close>

theorem Printer_infix_form:
  assumes "Some name \<noteq> symbol"
    and "render str a = Inr ra" and "render str b = Inr rb"
  shows "render str (LOperator (Operator name symbol 2 (a # b # rest))) =
           Inr (''('' @ ra @ '' '' @ str_opt symbol @ '' '' @ rb @ '')'')
       \<and> snd (Printer_onOperator str p (Operator name symbol 2 (a # b # rest))) =
           p\<lparr>output := output p @ ''('' @ ra @ '' '' @ str_opt symbol @ '' '' @ rb @ '')''\<rparr>
       \<and> hd (''('' @ ra @ '' '' @ str_opt symbol @ '' '' @ rb @ '')'') = CHR ''(''
       \<and> last (''('' @ ra @ '' '' @ str_opt symbol @ '' '' @ rb @ '')'') = CHR '')''"
  by (simp add: render_def onOperator_infix[OF assms] Printer_init_eq
        del: Printer_onOperator.simps)

theorem Printer_infix_form_witness:
  "Some ''add'' \<noteq> Some ''+''
   \<and> render (\<lambda>s. s) (LArgument (Argument (Some ''x'') ''1.0'' False)) = Inr ''x''
   \<and> render (\<lambda>s. s) (LArgument (Argument None ''2'' True)) = Inr ''2''
   \<and> render (\<lambda>s. s) (LOperator (Operator ''add'' (Some ''+'') 2
         [LArgument (Argument (Some ''x'') ''1.0'' False), LArgument (Argument None ''2'' True)]))
       = Inr ''(x + 2)''"
proof -
  have n: "Some ''add'' \<noteq> Some ''+''" by simp
  have a: "render (\<lambda>s. s) (LArgument (Argument (Some ''x'') ''1.0'' False)) = Inr ''x''"
    by (simp add: render_def Printer_init_eq Printer_onArgument_def str_opt_def)
  have b: "render (\<lambda>s. s) (LArgument (Argument None ''2'' True)) = Inr ''2''"
    by (simp add: render_def Printer_init_eq Printer_onArgument_def str_opt_def)
  from Printer_infix_form[OF n a b, of "[]"] n a b show ?thesis
    by (simp add: str_opt_def del: Printer_onOperator.simps)
qed

text \<open>
  C3: an operator whose \<open>nin\<close> is not 2, or whose name is its symbol, is rendered as a
  function call: the name, an opening parenthesis, the renderings of all its children in
  their order joined by a comma and a space, and a closing parenthesis; without children
  this is the name followed by \<open>()\<close>. In this branch \<open>onOperator\<close> returns the output.
\<close>

theorem Printer_call_form:
  assumes "nin \<noteq> 2 \<or> symbol = Some name"
    and "map (render str) children = map Inr rs"
  shows "render str (LOperator (Operator name symbol nin children)) =
           Inr (name @ ''('' @ comma_join rs @ '')'')
       \<and> Printer_onOperator str p (Operator name symbol nin children) =
           (Inr (Some (output p @ name @ ''('' @ comma_join rs @ '')'')),
            p\<lparr>output := output p @ name @ ''('' @ comma_join rs @ '')''\<rparr>)
       \<and> render str (LOperator (Operator name symbol nin [])) = Inr (name @ ''()'')"
proof -
  have "map (render str) [] = map Inr []" by simp
  from onOperator_call[OF assms(1) this]
  show ?thesis
    by (simp add: render_def onOperator_call[OF assms] Printer_init_eq
        del: Printer_onOperator.simps)
qed

theorem Printer_call_form_witness:
  "(1::int) \<noteq> 2
   \<and> map (render (\<lambda>s. s)) [LArgument (Argument None ''3.0'' True)] = map Inr [''3.0'']
   \<and> render (\<lambda>s. s) (LOperator (Operator ''sin'' (Some ''sin'') 1
         [LArgument (Argument None ''3.0'' True)])) = Inr ''sin(3.0)''
   \<and> render (\<lambda>s. s) (LOperator (Operator ''sin'' (Some ''sin'') 1 [])) = Inr ''sin()''"
proof -
  have n: "(1::int) \<noteq> 2 \<or> Some ''sin'' = Some ''sin''" by simp
  have c: "map (render (\<lambda>s. s)) [LArgument (Argument None ''3.0'' True)] = map Inr [''3.0'']"
    by (simp add: render_def Printer_init_eq Printer_onArgument_def str_opt_def)
  from Printer_call_form[OF n c] c show ?thesis
    by (simp del: Printer_onOperator.simps)
qed

section \<open>Arguments\<close>

text \<open>
  C4: for an Argument leaf the Printer emits the argument's name when it has one, and
  the string of its value (\<open>str\<close>) otherwise; \<open>onArgument\<close> returns the output.
\<close>

theorem Printer_onArgument_emits:
  "Printer_onArgument str p (Argument (Some n) v c) =
     (Inr (Some (output p @ n)), p\<lparr>output := output p @ n\<rparr>)
   \<and> Printer_onArgument str p (Argument None v c) =
     (Inr (Some (output p @ str v)), p\<lparr>output := output p @ str v\<rparr>)
   \<and> render str (LArgument (Argument (Some n) v c)) = Inr n
   \<and> render str (LArgument (Argument None v c)) = Inr (str v)"
  by (simp add: render_def Printer_init_eq Printer_onArgument_def str_opt_def)

text \<open>
  C10: the Printer tests the name against \<open>None\<close>, not against emptiness. Any name that
  is present is emitted and the value plays no part in the result; in particular the
  empty name adds nothing to the output and the value is not printed. The value is
  printed for the argument without a name.
\<close>

theorem Printer_name_test_is_None:
  "snd (Printer_onArgument str p (Argument (Some n) v c)) = p\<lparr>output := output p @ n\<rparr>
   \<and> Printer_onArgument str p (Argument (Some n) v c) =
       Printer_onArgument str p (Argument (Some n) v' c)
   \<and> snd (Printer_onArgument str p (Argument (Some '''') v c)) = p
   \<and> render str (LArgument (Argument (Some '''') v c)) = Inr ''''
   \<and> snd (Printer_onArgument str p (Argument None v c)) = p\<lparr>output := output p @ str v\<rparr>"
  by (simp add: render_def Printer_init_eq Printer_onArgument_def str_opt_def)

section \<open>The result of the ArgFinder\<close>

text \<open>
  C5: on a tree the ArgFinder goes depth first and left to right over the children of
  each operator, and its result is the sequence of the Argument occurrences in the
  order met, none removed as a duplicate, an occurrence being taken exactly when
  \<open>getconsts\<close> is true or the argument is not const. The methods return the
  accumulator, which starts from what the ArgFinder held before. With \<open>getconsts\<close>
  true the result of a new ArgFinder is the sequence of all occurrences, so its length
  is their number; with \<open>getconsts\<close> false it is that sequence without the const
  occurrences.
\<close>

theorem ArgFinder_collects_occurrences:
  "fst (ArgFinder_identify t af) =
       args af @ filter (\<lambda>a. getconsts af \<or> \<not> arg_const a) (argument_occurrences t)
   \<and> args (snd (ArgFinder_identify t af)) = fst (ArgFinder_identify t af)
   \<and> getconsts (snd (ArgFinder_identify t af)) = getconsts af
   \<and> fst (ArgFinder_identify t (ArgFinder_init True)) = argument_occurrences t
   \<and> length (fst (ArgFinder_identify t (ArgFinder_init True))) = length (argument_occurrences t)
   \<and> fst (ArgFinder_identify t (ArgFinder_init False)) =
       filter (\<lambda>a. \<not> arg_const a) (fst (ArgFinder_identify t (ArgFinder_init True)))"
  by (simp add: ArgFinder_identify_collect collect_def ArgFinder_init_def)

theorem ArgFinder_collects_occurrences_witness:
  "fst (ArgFinder_identify
     (LOperator (Operator ''mul'' (Some ''*'') 2
        [LOperator (Operator ''add'' (Some ''+'') 2
           [LArgument (Argument (Some ''a'') ''1'' True),
            LArgument (Argument (Some ''b'') ''2'' False)]),
         LArgument (Argument (Some ''b'') ''2'' False)]))
     (ArgFinder_init False)) = [Argument (Some ''b'') ''2'' False, Argument (Some ''b'') ''2'' False]
   \<and> fst (ArgFinder_identify
     (LOperator (Operator ''mul'' (Some ''*'') 2
        [LOperator (Operator ''add'' (Some ''+'') 2
           [LArgument (Argument (Some ''a'') ''1'' True),
            LArgument (Argument (Some ''b'') ''2'' False)]),
         LArgument (Argument (Some ''b'') ''2'' False)]))
     (ArgFinder_init True)) =
       [Argument (Some ''a'') ''1'' True, Argument (Some ''b'') ''2'' False,
        Argument (Some ''b'') ''2'' False]"
  using ArgFinder_collects_occurrences[of
     "LOperator (Operator ''mul'' (Some ''*'') 2
        [LOperator (Operator ''add'' (Some ''+'') 2
           [LArgument (Argument (Some ''a'') ''1'' True),
            LArgument (Argument (Some ''b'') ''2'' False)]),
         LArgument (Argument (Some ''b'') ''2'' False)])" "ArgFinder_init False"]
  by (simp add: ArgFinder_init_def)

section \<open>Rendering again, and reset\<close>

text \<open>
  C6: rendering is deterministic. A full render is a reset followed by the traversal;
  a second full render of the same tree with the same Printer, nothing changed in
  between, leaves the same output and has the same outcome as the first, and so does
  a full render with any other Printer.
\<close>

theorem Printer_render_twice:
  "snd (Printer_identify str t (Printer_reset (snd (Printer_identify str t (Printer_reset p))))) =
     snd (Printer_identify str t (Printer_reset p))
   \<and> fst (Printer_identify str t (Printer_reset (snd (Printer_identify str t (Printer_reset p))))) =
     fst (Printer_identify str t (Printer_reset p))
   \<and> Printer_identify str t (Printer_reset p) = Printer_identify str t (Printer_reset q)"
  by (simp add: Printer_reset_eq)

text \<open>
  C7: after \<open>reset\<close> the accumulator is empty (the output is the empty string, the
  argument list is empty), and a visitor that was reset traverses a tree as a newly
  constructed one does (for the ArgFinder: one constructed with the same
  \<open>getconsts\<close>, which \<open>reset\<close> leaves as it is); this holds as well after an
  earlier traversal of any tree \<open>t0\<close>, so nothing of it is left in the new result.
\<close>

theorem reset_is_fresh:
  "output (Printer_reset p) = ''''
   \<and> args (ArgFinder_reset af) = []
   \<and> Printer_identify str t (Printer_reset p) = Printer_identify str t Printer_init
   \<and> ArgFinder_identify t (ArgFinder_reset af) = ArgFinder_identify t (ArgFinder_init (getconsts af))
   \<and> Printer_identify str t (Printer_reset (snd (Printer_identify str t0 p))) =
       Printer_identify str t Printer_init
   \<and> ArgFinder_identify t (ArgFinder_reset (snd (ArgFinder_identify t0 af))) =
       ArgFinder_identify t (ArgFinder_init (getconsts af))"
  by (simp add: Printer_reset_eq Printer_init_eq ArgFinder_reset_eq ArgFinder_identify_getconsts)
     (simp add: ArgFinder_init_def)

section \<open>No visitor writes to a node\<close>

text \<open>
  C8: no visitor operation mutates a node. On the store of objects, whatever the
  graph (a tree, shared nodes, a cycle), the depth allowed and the outcome (a return
  or an exception), the store after a traversal by the Printer or by the ArgFinder is
  the store before it: every Argument has its name, value and const flag, every
  Operator its name, symbol, \<open>nin\<close> and children.
\<close>

theorem visitors_preserve_store:
  "fst (snd (Printer_identify_st str depth n (h, p))) = h
   \<and> fst (snd (ArgFinder_identify_st depth n (h, af))) = h"
  using preservingD[OF Printer_identify_st_preserving, of str depth n "(h, p)"]
    preservingD[OF ArgFinder_identify_st_preserving, of depth n "(h, af)"]
  by simp

theorem visitors_preserve_store_witness:
  "Printer_identify_st (\<lambda>s. s) (Suc (Suc 0)) (OpRef 0)
     (\<lparr>arguments = (\<lambda>_. Argument None ''2'' True)(0 := Argument (Some ''x'') ''1.0'' False),
       operators = (\<lambda>_. \<lparr>ob_name = ''add'', ob_symbol = Some ''+'', ob_nin = 2,
                          ob_args = [ArgRef 0, ArgRef 1]\<rparr>)\<rparr>, Printer_init)
   = (Inr None,
      (\<lparr>arguments = (\<lambda>_. Argument None ''2'' True)(0 := Argument (Some ''x'') ''1.0'' False),
        operators = (\<lambda>_. \<lparr>ob_name = ''add'', ob_symbol = Some ''+'', ob_nin = 2,
                           ob_args = [ArgRef 0, ArgRef 1]\<rparr>)\<rparr>, \<lparr>output = ''(x + 2)''\<rparr>))
   \<and> ArgFinder_identify_st (Suc (Suc 0)) (OpRef 0)
     (\<lparr>arguments = (\<lambda>_. Argument None ''2'' True)(0 := Argument (Some ''x'') ''1.0'' False),
       operators = (\<lambda>_. \<lparr>ob_name = ''add'', ob_symbol = Some ''+'', ob_nin = 2,
                          ob_args = [ArgRef 0, ArgRef 1]\<rparr>)\<rparr>, ArgFinder_init False)
   = (Inr [0],
      (\<lparr>arguments = (\<lambda>_. Argument None ''2'' True)(0 := Argument (Some ''x'') ''1.0'' False),
        operators = (\<lambda>_. \<lparr>ob_name = ''add'', ob_symbol = Some ''+'', ob_nin = 2,
                           ob_args = [ArgRef 0, ArgRef 1]\<rparr>)\<rparr>, \<lparr>args = [0], getconsts = False\<rparr>))
   \<and> Printer_identify_st (\<lambda>s. s) (Suc (Suc 0)) (OpRef 0)
     (\<lparr>arguments = (\<lambda>_. Argument None ''2'' True),
       operators = (\<lambda>_. \<lparr>ob_name = ''add'', ob_symbol = Some ''+'', ob_nin = 2,
                          ob_args = [OpRef 0, ArgRef 1]\<rparr>)\<rparr>, Printer_init)
   = (Inl RecursionError,
      (\<lparr>arguments = (\<lambda>_. Argument None ''2'' True),
        operators = (\<lambda>_. \<lparr>ob_name = ''add'', ob_symbol = Some ''+'', ob_nin = 2,
                           ob_args = [OpRef 0, ArgRef 1]\<rparr>)\<rparr>, \<lparr>output = ''((''\<rparr>))"
  using visitors_preserve_store[of "\<lambda>s. s" "Suc (Suc 0)" "OpRef 0"
     "\<lparr>arguments = (\<lambda>_. Argument None ''2'' True)(0 := Argument (Some ''x'') ''1.0'' False),
       operators = (\<lambda>_. \<lparr>ob_name = ''add'', ob_symbol = Some ''+'', ob_nin = 2,
                          ob_args = [ArgRef 0, ArgRef 1]\<rparr>)\<rparr>" Printer_init "ArgFinder_init False"]
  by (simp add: Printer_onOperator_st_def Printer_onInfix_st_def emit_def
        Printer_onArgument_st_def Printer_onArgument_def Printer_init_eq str_opt_def
        ArgFinder_onOperator_st_def ArgFinder_onArgument_st_def ArgFinder_init_def)

section \<open>Errors of the Printer\<close>

text \<open>
  C9: the Printer raises no error on a well-formed tree (every operator has \<open>nin\<close>
  children): such a tree has a rendering. The accesses \<open>args[0]\<close> and \<open>args[1]\<close> of
  the infix branch are in bounds when the operator routed there has two children or
  more: with renderings of these two, \<open>onOperator\<close> returns. An operator with
  \<open>nin = 2\<close> and a name other than its symbol that has no child, or one child, ends
  in the \<open>IndexError\<close> of the access that is out of range, after the output written
  up to there; nothing catches it, as nothing catches the error of a child.
\<close>

theorem Printer_errors:
  "(wellformed t \<longrightarrow> (\<exists>s. render str t = Inr s))
   \<and> (Some name \<noteq> symbol \<and> render str a = Inr ra \<and> render str b = Inr rb \<longrightarrow>
        (\<exists>p'. Printer_onOperator str p (Operator name symbol 2 (a # b # rest)) = (Inr None, p')))
   \<and> (Some name \<noteq> symbol \<longrightarrow>
        Printer_onOperator str p (Operator name symbol 2 []) =
          (Inl IndexError, p\<lparr>output := output p @ ''(''\<rparr>))
   \<and> (Some name \<noteq> symbol \<and> render str a = Inr ra \<longrightarrow>
        Printer_onOperator str p (Operator name symbol 2 [a]) =
          (Inl IndexError, p\<lparr>output := output p @ ''('' @ ra @ '' '' @ str_opt symbol @ '' ''\<rparr>))
   \<and> (Some name \<noteq> symbol \<and> render str a = Inl e \<longrightarrow>
        fst (Printer_onOperator str p (Operator name symbol 2 (a # rest))) = Inl e)"
proof (intro conjI impI)
  assume "wellformed t"
  then show "\<exists>s. render str t = Inr s" by (rule wellformed_renders)
next
  assume "Some name \<noteq> symbol \<and> render str a = Inr ra \<and> render str b = Inr rb"
  then show "\<exists>p'. Printer_onOperator str p (Operator name symbol 2 (a # b # rest)) = (Inr None, p')"
    using onOperator_infix[of name symbol str a ra b rb p rest] by blast
next
  assume "Some name \<noteq> symbol"
  then show "Printer_onOperator str p (Operator name symbol 2 []) =
          (Inl IndexError, p\<lparr>output := output p @ ''(''\<rparr>)"
    by simp
next
  assume "Some name \<noteq> symbol \<and> render str a = Inr ra"
  then show "Printer_onOperator str p (Operator name symbol 2 [a]) =
          (Inl IndexError, p\<lparr>output := output p @ ''('' @ ra @ '' '' @ str_opt symbol @ '' ''\<rparr>)"
    using onInfix_one[of str a ra p name symbol 2]
    by (simp del: Printer_onInfix.simps)
next
  assume "Some name \<noteq> symbol \<and> render str a = Inl e"
  then show "fst (Printer_onOperator str p (Operator name symbol 2 (a # rest))) = Inl e"
    using onInfix_first_raises[of str a e p name symbol 2 rest]
    by (cases "Printer_onInfix str p (Operator name symbol 2 (a # rest))")
       (auto simp del: Printer_onInfix.simps)
qed

theorem Printer_errors_witness:
  "wellformed (LOperator (Operator ''add'' (Some ''+'') 2
       [LArgument (Argument (Some ''x'') ''1.0'' False), LArgument (Argument None ''2'' True)]))
   \<and> (\<exists>s. render (\<lambda>s. s) (LOperator (Operator ''add'' (Some ''+'') 2
       [LArgument (Argument (Some ''x'') ''1.0'' False), LArgument (Argument None ''2'' True)]))
         = Inr s)
   \<and> Some ''add'' \<noteq> Some ''+''
   \<and> render (\<lambda>s. s) (LArgument (Argument (Some ''x'') ''1.0'' False)) = Inr ''x''
   \<and> render (\<lambda>s. s) (LArgument (Argument None ''2'' True)) = Inr ''2''
   \<and> (\<exists>p'. Printer_onOperator (\<lambda>s. s) Printer_init (Operator ''add'' (Some ''+'') 2
       [LArgument (Argument (Some ''x'') ''1.0'' False), LArgument (Argument None ''2'' True)])
         = (Inr None, p'))
   \<and> Printer_onOperator (\<lambda>s. s) Printer_init (Operator ''add'' (Some ''+'') 2 []) =
         (Inl IndexError, \<lparr>output = ''(''\<rparr>)
   \<and> Printer_onOperator (\<lambda>s. s) Printer_init (Operator ''add'' (Some ''+'') 2
         [LArgument (Argument (Some ''x'') ''1.0'' False)]) =
         (Inl IndexError, \<lparr>output = ''(x + ''\<rparr>)
   \<and> render (\<lambda>s. s) (LOperator (Operator ''sub'' (Some ''-'') 2 [])) = Inl IndexError
   \<and> fst (Printer_onOperator (\<lambda>s. s) Printer_init (Operator ''add'' (Some ''+'') 2
         [LOperator (Operator ''sub'' (Some ''-'') 2 []),
          LArgument (Argument None ''2'' True)])) = Inl IndexError"
proof -
  let ?x = "LArgument (Argument (Some ''x'') ''1.0'' False) :: string literal"
  let ?two = "LArgument (Argument None ''2'' True) :: string literal"
  let ?bad = "LOperator (Operator ''sub'' (Some ''-'') 2 []) :: string literal"
  have wf: "wellformed (LOperator (Operator ''add'' (Some ''+'') 2 [?x, ?two]))" by simp
  have n: "Some ''add'' \<noteq> Some ''+''" by simp
  have x: "render (\<lambda>s. s) ?x = Inr ''x''"
    by (simp add: render_def Printer_init_eq Printer_onArgument_def str_opt_def)
  have two: "render (\<lambda>s. s) ?two = Inr ''2''"
    by (simp add: render_def Printer_init_eq Printer_onArgument_def str_opt_def)
  have bad: "render (\<lambda>s. s) ?bad = Inl IndexError"
    by (simp add: render_def Printer_init_eq)
  from Printer_errors[of "LOperator (Operator ''add'' (Some ''+'') 2 [?x, ?two])" "\<lambda>s. s"
      "''add''" "Some ''+''" "?x" "''x''" "?two" "''2''" Printer_init "[]"]
    Printer_errors[of "LOperator (Operator ''add'' (Some ''+'') 2 [?x, ?two])" "\<lambda>s. s"
      "''add''" "Some ''+''" "?bad" "''x''" "?two" "''2''" Printer_init "[?two]" IndexError]
    wf n x two bad
  show ?thesis
    by (simp add: Printer_init_eq str_opt_def
          del: Printer_onOperator.simps wellformed.simps)
qed

end
